theory Spec2Isabelle
  imports Complex_Main "HOL-Library.Word"
begin

unbundle bit_operations_syntax

section \<open>JavaScript numbers\<close>

text \<open>
  The tick, pitch and velocity values of the editor are integer-valued JavaScript numbers;
  they are modelled as \<^typ>\<open>int\<close>. The bitwise operators of JavaScript first convert
  their operands with ToInt32 (wrap-around into the signed 32-bit range); \<open>>>\<close> is the
  arithmetic shift. Pixel coordinates, the zoom factor and transport seconds are fractions
  and are modelled as \<^typ>\<open>rat\<close> (exact arithmetic in place of binary floating point).
\<close>

definition toInt32 :: "int \<Rightarrow> int" where
  "toInt32 n = (n + 2 ^ 31) mod 2 ^ 32 - 2 ^ 31"

definition jsAnd :: "int \<Rightarrow> int \<Rightarrow> int" where
  "jsAnd a b = toInt32 a AND toInt32 b"

definition jsOr :: "int \<Rightarrow> int \<Rightarrow> int" where
  "jsOr a b = toInt32 a OR toInt32 b"

definition jsShr :: "int \<Rightarrow> nat \<Rightarrow> int" where
  "jsShr a k = drop_bit k (toInt32 a)"

text \<open>\<open>Math.round\<close> rounds halves towards plus infinity.\<close>

definition mathRound :: "rat \<Rightarrow> int" where
  "mathRound x = \<lfloor>x + 1 / 2\<rfloor>"

text \<open>Storing a number into a \<open>Uint8Array\<close> keeps its low eight bits.\<close>

definition toUint8 :: "int \<Rightarrow> int" where
  "toUint8 n = n mod 256"

definition Uint8Array :: "int list \<Rightarrow> int list" where
  "Uint8Array xs = map toUint8 xs"

text \<open>\<open>new TextEncoder().encode\<close> on an ASCII string.\<close>

definition encodeText :: "string \<Rightarrow> int list" where
  "encodeText s = map of_char s"

lemma toInt32_range: "- (2 ^ 31) \<le> toInt32 n \<and> toInt32 n < 2 ^ 31"
  unfolding toInt32_def
  by (simp add: pos_mod_bound [of "2 ^ 32" "n + 2 ^ 31", simplified] add.commute)

lemma toInt32_id: "- (2 ^ 31) \<le> n \<Longrightarrow> n < 2 ^ 31 \<Longrightarrow> toInt32 n = n"
  unfolding toInt32_def by simp

lemma jsShr_decreases:
  assumes "0 < jsShr v 7"
  shows "0 < toInt32 v \<and> toInt32 (jsShr v 7) < toInt32 v"
proof -
  have r: "- (2 ^ 31) \<le> toInt32 v \<and> toInt32 v < 2 ^ 31" by (rule toInt32_range)
  have d: "jsShr v 7 = toInt32 v div 128" by (simp add: jsShr_def drop_bit_eq_div)
  from assms d have pos: "0 < toInt32 v" by (smt (verit) div_nonpos_pos_le0)
  with d have lt: "jsShr v 7 < toInt32 v" by simp
  from r lt assms have "toInt32 (jsShr v 7) = jsShr v 7" by (intro toInt32_id) simp_all
  with lt pos show ?thesis by simp
qed

section \<open>The data model of the canvas editor (components/PianoRoll.tsx)\<close>

record Note =
  id_n :: string
  tick :: int
  length_n :: int
  midi :: int
  vel :: int

definition PPQ :: int where
  "PPQ = 480"

definition BPM :: int where
  "BPM = 120"

section \<open>The MIDI writer (lib/midi.ts)\<close>

record midi_event =
  ev_tick :: int
  ev_bytes :: "int list"

definition writeUint32BE :: "int \<Rightarrow> int list" where
  "writeUint32BE n =
     Uint8Array [jsAnd (jsShr n 24) 0xff, jsAnd (jsShr n 16) 0xff, jsAnd (jsShr n 8) 0xff,
       jsAnd n 0xff]"

definition writeUint16BE :: "int \<Rightarrow> int list" where
  "writeUint16BE n = Uint8Array [jsAnd (jsShr n 8) 0xff, jsAnd n 0xff]"

definition headerChunk :: "int \<Rightarrow> int list" where
  "headerChunk ppq =
     Uint8Array (encodeText ''MThd'' @ writeUint32BE 6 @ writeUint16BE 0 @ writeUint16BE 1
       @ writeUint16BE ppq)"

text \<open>
  \<open>mpq = Math.round(60000000 / bpm)\<close>. For \<open>bpm = 0\<close> JavaScript yields Infinity, whose
  ToInt32 is 0; the quotient of the model is 0 there as well.
\<close>

definition tempoMpq :: "int \<Rightarrow> int" where
  "tempoMpq bpm = mathRound (60000000 / of_int bpm)"

definition tempoEvent :: "int \<Rightarrow> midi_event" where
  "tempoEvent bpm =
     (let mpq = tempoMpq bpm
      in \<lparr>ev_tick = 0,
          ev_bytes = [0x00, 0xff, 0x51, 0x03, jsAnd (jsShr mpq 16) 0xff,
            jsAnd (jsShr mpq 8) 0xff, jsAnd mpq 0xff]\<rparr>)"

definition noteEvents :: "Note \<Rightarrow> midi_event list" where
  "noteEvents n =
     [\<lparr>ev_tick = tick n, ev_bytes = [0x00, 0x90, jsAnd (midi n) 0x7f, jsAnd (vel n) 0x7f]\<rparr>,
      \<lparr>ev_tick = tick n + length_n n, ev_bytes = [0x00, 0x80, jsAnd (midi n) 0x7f, 0x40]\<rparr>]"

text \<open>
  The do-while loop that splits a delta into 7-bit groups, each new group put in front
  (\<open>vl.unshift\<close>).
\<close>

function vlGroups :: "int \<Rightarrow> int list \<Rightarrow> int list" where
  "vlGroups v vl =
     (if jsShr v 7 > 0 then vlGroups (jsShr v 7) (jsAnd v 0x7f # vl) else jsAnd v 0x7f # vl)"
  by pat_completeness auto
termination
  by (relation "measure (\<lambda>(v, vl). nat (toInt32 v))") (simp_all add: jsShr_decreases)

declare vlGroups.simps [simp del]

text \<open>The for loop over the groups: the continuation bit on every byte but the last.\<close>

definition writeVlq :: "int \<Rightarrow> int list" where
  "writeVlq delta =
     (let vl = vlGroups delta []
      in map (\<lambda>i. if i \<noteq> length vl - 1 then jsOr (vl ! i) 0x80 else vl ! i) [0..<length vl])"

text \<open>
  One round of \<open>events.forEach\<close>: the state is \<open>lastTick\<close> and \<open>outBytes\<close>;
  \<open>ev.bytes.slice(1)\<close> drops the placeholder byte.
\<close>

definition writeEvent :: "int \<times> int list \<Rightarrow> midi_event \<Rightarrow> int \<times> int list" where
  "writeEvent st ev =
     (case st of (lastTick, outBytes) \<Rightarrow>
        (ev_tick ev, outBytes @ writeVlq (ev_tick ev - lastTick) @ drop 1 (ev_bytes ev)))"

text \<open>
  \<open>events.sort((a, b) => a.tick - b.tick)\<close> is a stable sort by tick, as \<^const>\<open>sort_key\<close> is.
\<close>

definition trackBytes :: "Note list \<Rightarrow> int \<Rightarrow> int list" where
  "trackBytes notes bpm =
     (let events = tempoEvent bpm # concat (map noteEvents notes);
          sorted = sort_key ev_tick events;
          outBytes = snd (foldl writeEvent (0, []) sorted)
      in outBytes @ [0x00, 0xff, 0x2f, 0x00])"

definition writeMidi :: "Note list \<Rightarrow> int \<Rightarrow> int \<Rightarrow> int list" where
  "writeMidi notes ppq bpm =
     (let outBytes = trackBytes notes bpm;
          trackChunk = Uint8Array (encodeText ''MTrk'' @ writeUint32BE (int (length outBytes))
            @ outBytes)
      in Uint8Array (headerChunk ppq @ trackChunk))"

text \<open>
  The Export MIDI button of the editor. The parameters of \<open>writeMidi\<close> are
  \<open>(notes, ppq, bpm)\<close>; the call passes \<open>(notes, BPM, PPQ)\<close>.
\<close>

definition exportMIDI :: "Note list \<Rightarrow> int list" where
  "exportMIDI notes = writeMidi notes BPM PPQ"

subsection \<open>The variable-length quantity as the specification words it\<close>

text \<open>
  This definition follows the specification, not the source: the 7-bit groups of a
  natural number, the most significant group first, at least one group; then one byte per
  group, with the continuation bit (128) on every byte except the last. It is the
  reference that \<open>writeVlq\<close> is compared with.
\<close>

fun groups128 :: "nat \<Rightarrow> nat list" where
  "groups128 n = (if n < 128 then [n] else groups128 (n div 128) @ [n mod 128])"

declare groups128.simps [simp del]

definition vlqSpec :: "int \<Rightarrow> int list" where
  "vlqSpec delta =
     (let gs = groups128 (nat delta)
      in map (\<lambda>g. int g + 128) (butlast gs) @ [int (last gs)])"

section \<open>Identifiers\<close>

text \<open>
  \<open>Date.now()\<close> is a reading of the system clock in milliseconds, a natural number
  supplied by the environment. Number-to-string conversion of a natural number is its
  decimal numeral.
\<close>

definition digitChar :: "nat \<Rightarrow> char" where
  "digitChar d = ''0123456789'' ! d"

fun numberToString :: "nat \<Rightarrow> string" where
  "numberToString n =
     (if n < 10 then [digitChar n] else numberToString (n div 10) @ [digitChar (n mod 10)])"

declare numberToString.simps [simp del]

section \<open>The MIDI importer (handleFileImport in components/PianoRoll.tsx)\<close>

text \<open>
  The scan loop \<open>for (let i = 0; i < midiData.length - 3; i++)\<close>. Its state is the list
  \<open>importedNotes\<close> and the counter \<open>currentTick\<close>. The clock is read once per accepted
  note, \<open>clock i\<close> being the reading at scan offset \<open>i\<close>. The reads at \<open>i + 1\<close> and
  \<open>i + 2\<close> are inside the buffer for every offset the loop visits. The elements of the
  \<open>Uint8Array\<close> are numbers from 0 to 255; nothing below depends on that range.
\<close>

record scan_state =
  importedNotes :: "Note list"
  currentTick :: int

definition scanStep :: "(nat \<Rightarrow> nat) \<Rightarrow> int list \<Rightarrow> scan_state \<Rightarrow> nat \<Rightarrow> scan_state" where
  "scanStep clock midiData st i =
     (let byte = midiData ! i
      in if jsAnd byte 0xF0 = 0x90 then
           (let note = midiData ! (i + 1);
                velocity = midiData ! (i + 2);
                st' = (if velocity > 0 \<and> note \<ge> 21 \<and> note \<le> 108
                       then st\<lparr>importedNotes := importedNotes st @
                              [\<lparr>id_n = ''imported_'' @ numberToString (clock i) @ ''_''
                                   @ numberToString i,
                                tick = currentTick st,
                                length_n = PPQ div 4,
                                midi = note,
                                vel = velocity\<rparr>]\<rparr>
                       else st)
            in st'\<lparr>currentTick := currentTick st' + PPQ div 8\<rparr>)
         else st)"

definition scanNotes :: "(nat \<Rightarrow> nat) \<Rightarrow> int list \<Rightarrow> Note list" where
  "scanNotes clock midiData =
     importedNotes (foldl (scanStep clock midiData) \<lparr>importedNotes = [], currentTick = 0\<rparr>
       [0..<length midiData - 3])"

text \<open>A clock that shows the same reading during a whole scan.\<close>

definition constClock :: "nat \<Rightarrow> nat \<Rightarrow> nat" where
  "constClock t i = t"

section \<open>The canvas editor (components/PianoRoll.tsx)\<close>

definition visibleBeats :: rat where "visibleBeats = 16"
definition pianoWidth :: rat where "pianoWidth = 100"
definition canvasWidth :: rat where "canvasWidth = 1200"
definition canvasHeight :: rat where "canvasHeight = 400"
definition totalKeys :: int where "totalKeys = 88"
definition keyCount :: int where "keyCount = 36"

record drag_info =
  isDragging :: bool
  isResizing :: bool
  noteId :: string
  startX :: rat
  startY :: rat
  originalTick :: int
  originalMidi :: int
  originalLength :: int

text \<open>
  The part of the component state that the pointer, keyboard, toolbar and file handlers
  read and write: the \<open>notes\<close>, \<open>zoom\<close> and \<open>scrollOffset\<close> state variables and the
  \<open>dragInfo\<close> and \<open>selectedRef\<close> reference cells.
\<close>

record editor =
  "notes" :: "Note list"
  zoom :: rat
  scrollOffset :: int
  dragInfo :: "drag_info option"
  selectedRef :: "string option"

definition initialEditor :: editor where
  "initialEditor =
     \<lparr>notes = [], zoom = 1, scrollOffset = 24, dragInfo = None, selectedRef = None\<rparr>"

definition topMidi :: "editor \<Rightarrow> int" where
  "topMidi st = 108 - scrollOffset st"

definition pixelsPerTick :: "editor \<Rightarrow> rat" where
  "pixelsPerTick st =
     (let totalTicks = of_int PPQ * 4 * (visibleBeats / 4) / zoom st
      in (canvasWidth - pianoWidth) / totalTicks)"

text \<open>
  With a zoom of 0 JavaScript computes with Infinity where the model divides by zero; the
  zoom slider delivers positive values only, and what is proved below about pointer
  positions assumes a positive zoom.
\<close>

text \<open>The predicate of \<open>notes.find\<close> in the mouse-down and the context-menu handler.\<close>

definition noteAt :: "editor \<Rightarrow> rat \<Rightarrow> rat \<Rightarrow> Note \<Rightarrow> bool" where
  "noteAt st gridX y n =
     (let noteX = of_int (tick n) * pixelsPerTick st;
          noteW = of_int (length_n n) * pixelsPerTick st;
          noteIndex = topMidi st - midi n;
          noteY = of_int noteIndex * (canvasHeight / of_int keyCount);
          noteH = canvasHeight / of_int keyCount - 4
      in gridX \<ge> noteX \<and> gridX \<le> noteX + noteW \<and> y \<ge> noteY \<and> y \<le> noteY + noteH)"

text \<open>
  \<open>Math.floor(tick / (PPQ / 4)) * (PPQ / 4)\<close> on an integer tick, as both pointer
  handlers compute \<open>snappedTick\<close>.
\<close>

definition snappedTick :: "int \<Rightarrow> int" where
  "snappedTick t = (t div (PPQ div 4)) * (PPQ div 4)"

text \<open>
  The pointer position \<open>x\<close>, \<open>y\<close> is relative to the canvas; \<open>now\<close> is the reading of
  \<open>Date.now()\<close>. A click on the piano keys only sounds a note.
\<close>

definition handleCanvasMouseDown :: "rat \<Rightarrow> rat \<Rightarrow> nat \<Rightarrow> editor \<Rightarrow> editor" where
  "handleCanvasMouseDown x y now st =
     (if x < pianoWidth then st
      else
        (let gridX = x - pianoWidth
         in case find (noteAt st gridX y) (notes st) of
              Some clickedNote \<Rightarrow>
                st\<lparr>selectedRef := Some (id_n clickedNote),
                   dragInfo := Some
                     \<lparr>isDragging = True, isResizing = False, noteId = id_n clickedNote,
                      startX = x, startY = y, originalTick = tick clickedNote,
                      originalMidi = midi clickedNote,
                      originalLength = length_n clickedNote\<rparr>\<rparr>
            | None \<Rightarrow>
                (let t = \<lfloor>gridX / pixelsPerTick st\<rfloor>;
                     keyIndex = \<lfloor>y / (canvasHeight / of_int keyCount)\<rfloor>;
                     m = topMidi st - keyIndex;
                     newNote = \<lparr>id_n = numberToString now, tick = snappedTick t,
                                length_n = PPQ div 4, midi = m, vel = 80\<rparr>
                 in st\<lparr>notes := notes st @ [newNote]\<rparr>)))"

definition handleCanvasMouseMove :: "rat \<Rightarrow> rat \<Rightarrow> editor \<Rightarrow> editor" where
  "handleCanvasMouseMove x y st =
     (case dragInfo st of
        None \<Rightarrow> st
      | Some d \<Rightarrow>
          if \<not> isDragging d then st
          else
            (let deltaX = x - startX d;
                 deltaY = y - startY d;
                 keyHeight = canvasHeight / of_int keyCount;
                 tickDelta = \<lfloor>deltaX / pixelsPerTick st\<rfloor>;
                 midiDelta = - \<lfloor>deltaY / keyHeight\<rfloor>;
                 newTick = max 0 (originalTick d + tickDelta);
                 newMidi = max 21 (min 108 (originalMidi d + midiDelta))
             in st\<lparr>notes := map (\<lambda>n. if id_n n = noteId d
                                      then n\<lparr>tick := snappedTick newTick, midi := newMidi\<rparr>
                                      else n) (notes st)\<rparr>))"

definition handleCanvasMouseUp :: "editor \<Rightarrow> editor" where
  "handleCanvasMouseUp st = st\<lparr>dragInfo := None\<rparr>"

definition handleCanvasWheel :: "rat \<Rightarrow> editor \<Rightarrow> editor" where
  "handleCanvasWheel deltaY st =
     (let scrollDelta = (if deltaY > 0 then 1 else if deltaY < 0 then - 1 else 0) * 3
      in st\<lparr>scrollOffset := max 0 (min (totalKeys - keyCount) (scrollOffset st + scrollDelta))\<rparr>)"

definition handleCanvasRightClick :: "rat \<Rightarrow> rat \<Rightarrow> editor \<Rightarrow> editor" where
  "handleCanvasRightClick x y st =
     (if x < pianoWidth then st
      else
        (case find (noteAt st (x - pianoWidth) y) (notes st) of
           Some clickedNote \<Rightarrow>
             st\<lparr>notes := filter (\<lambda>n. id_n n \<noteq> id_n clickedNote) (notes st),
                selectedRef := None\<rparr>
         | None \<Rightarrow> st))"

text \<open>
  The Delete or Backspace key, pressed outside an input element; an empty string in
  \<open>selectedRef\<close> counts as no selection.
\<close>

definition handleDeleteKey :: "editor \<Rightarrow> editor" where
  "handleDeleteKey st =
     (case selectedRef st of
        None \<Rightarrow> st
      | Some sel \<Rightarrow>
          if sel = [] then st
          else st\<lparr>notes := filter (\<lambda>n. id_n n \<noteq> sel) (notes st), selectedRef := None\<rparr>)"

definition handleEscapeKey :: "editor \<Rightarrow> editor" where
  "handleEscapeKey st = st\<lparr>selectedRef := None, dragInfo := None\<rparr>"

text \<open>The Clear button empties the store (and stops a running playback).\<close>

definition clearNotes :: "editor \<Rightarrow> editor" where
  "clearNotes st = st\<lparr>notes := []\<rparr>"

definition setZoom :: "rat \<Rightarrow> editor \<Rightarrow> editor" where
  "setZoom z st = st\<lparr>zoom := z\<rparr>"

text \<open>
  What the file chooser delivers: no file, a file whose read fails (the \<open>catch\<close> branch),
  or the bytes of the file.
\<close>

datatype file_input = NoFile | Unreadable | FileBytes "int list"

definition handleFileImport :: "file_input \<Rightarrow> (nat \<Rightarrow> nat) \<Rightarrow> editor \<Rightarrow> editor" where
  "handleFileImport file clock st =
     (case file of
        NoFile \<Rightarrow> st
      | Unreadable \<Rightarrow> st
      | FileBytes midiData \<Rightarrow>
          (let imported = scanNotes clock midiData
           in if length imported > 0 then st\<lparr>notes := imported\<rparr> else st))"

text \<open>The events of an editing session and the handler each one runs.\<close>

datatype event =
    MouseDown rat rat nat
  | MouseMove rat rat
  | MouseUp
  | Wheel rat
  | RightClick rat rat
  | DeleteKey
  | EscapeKey
  | Clear
  | SetZoom rat
  | Import file_input "nat \<Rightarrow> nat"

fun handle :: "editor \<Rightarrow> event \<Rightarrow> editor" where
  "handle st (MouseDown x y now) = handleCanvasMouseDown x y now st"
| "handle st (MouseMove x y) = handleCanvasMouseMove x y st"
| "handle st MouseUp = handleCanvasMouseUp st"
| "handle st (Wheel deltaY) = handleCanvasWheel deltaY st"
| "handle st (RightClick x y) = handleCanvasRightClick x y st"
| "handle st DeleteKey = handleDeleteKey st"
| "handle st EscapeKey = handleEscapeKey st"
| "handle st Clear = clearNotes st"
| "handle st (SetZoom z) = setZoom z st"
| "handle st (Import file clock) = handleFileImport file clock st"

definition session :: "event list \<Rightarrow> editor" where
  "session evs = foldl handle initialEditor evs"

subsection \<open>Vocabulary for the scan\<close>

text \<open>
  The conditions of the loop body, named: offset \<open>i\<close> carries a note-on status byte; it is
  accepted (velocity positive, pitch in 21..108); the offsets the loop visits and accepts;
  the number of note-on status bytes at offsets before \<open>i\<close>.
\<close>

definition isNoteOnAt :: "int list \<Rightarrow> nat \<Rightarrow> bool" where
  "isNoteOnAt midiData i = (jsAnd (midiData ! i) 0xF0 = 0x90)"

definition acceptedAt :: "int list \<Rightarrow> nat \<Rightarrow> bool" where
  "acceptedAt midiData i =
     (isNoteOnAt midiData i \<and> midiData ! (i + 2) > 0 \<and> midiData ! (i + 1) \<ge> 21
      \<and> midiData ! (i + 1) \<le> 108)"

definition acceptedOffsets :: "int list \<Rightarrow> nat list" where
  "acceptedOffsets midiData = filter (acceptedAt midiData) [0..<length midiData - 3]"

definition noteOnsBefore :: "int list \<Rightarrow> nat \<Rightarrow> nat" where
  "noteOnsBefore midiData i = length (filter (isNoteOnAt midiData) [0..<i])"

text \<open>The note that the loop body builds at an accepted offset \<open>i\<close>.\<close>

definition importedNote :: "(nat \<Rightarrow> nat) \<Rightarrow> int list \<Rightarrow> nat \<Rightarrow> Note" where
  "importedNote clock midiData i =
     \<lparr>id_n = ''imported_'' @ numberToString (clock i) @ ''_'' @ numberToString i,
      tick = (PPQ div 8) * int (noteOnsBefore midiData i),
      length_n = PPQ div 4,
      midi = midiData ! (i + 1),
      vel = midiData ! (i + 2)\<rparr>"

subsection \<open>Grid snapping with the grid division as a parameter\<close>

text \<open>
  The source has no snapping function of its own: both pointer handlers inline
  \<open>Math.floor(tick / (PPQ / 4)) * (PPQ / 4)\<close>. Here the same expression is written with
  the grid division in place of the literal 4, over exact fractions; \<open>snappedTick\<close> is its
  instance at division 4 on integer ticks (lemma \<open>snappedTick_snapToGrid\<close>).
\<close>

definition snapToGrid :: "rat \<Rightarrow> rat \<Rightarrow> rat" where
  "snapToGrid t gridDivision =
     of_int \<lfloor>t / (of_int PPQ / gridDivision)\<rfloor> * (of_int PPQ / gridDivision)"

subsection \<open>Vocabulary for a drag\<close>

text \<open>
  The pitch a pointer position asks for during a drag, before the handler limits it:
  \<open>originalMidi + midiDelta\<close>.
\<close>

definition requestedMidi :: "drag_info \<Rightarrow> rat \<Rightarrow> int" where
  "requestedMidi d y = originalMidi d + - \<lfloor>(y - startY d) / (canvasHeight / of_int keyCount)\<rfloor>"

text \<open>The positions of the zoom slider: from 0.5 to 4 in steps of 0.5.\<close>

definition sliderZoom :: "rat \<Rightarrow> bool" where
  "sliderZoom z = (z \<in> set [1 / 2, 1, 3 / 2, 2, 5 / 2, 3, 7 / 2, 4])"

fun zoomEvent :: "event \<Rightarrow> bool" where
  "zoomEvent (SetZoom z) = sliderZoom z"
| "zoomEvent _ = True"

text \<open>The clock readings of the mouse-down events of a session, in order.\<close>

fun clickTimes :: "event list \<Rightarrow> nat list" where
  "clickTimes [] = []"
| "clickTimes (MouseDown x y now # evs) = now # clickTimes evs"
| "clickTimes (_ # evs) = clickTimes evs"

section \<open>Playback in the canvas editor (playNotes in components/PianoRoll.tsx)\<close>

text \<open>
  The state that \<open>playNotes\<close> and its timer touch: the \<open>isPlaying\<close> and \<open>cursorTick\<close> state
  variables, the transport (running or not, and the start times in seconds of the triggers
  scheduled on it), and the interval timer held in \<open>timelineRef\<close>. The callback of the timer
  is a closure created inside \<open>playNotes\<close>; it reads the variable \<open>isPlaying\<close> of the render
  in which \<open>playNotes\<close> was created, so the timer is recorded together with that value.
\<close>

record playback =
  isPlaying :: bool
  cursorTick :: rat
  transportRunning :: bool
  scheduled :: "rat list"
  timelineRef :: "bool option"

definition initialPlayback :: playback where
  "initialPlayback =
     \<lparr>isPlaying = False, cursorTick = 0, transportRunning = False, scheduled = [],
      timelineRef = None\<rparr>"

definition maxTicks :: rat where
  "maxTicks = of_int PPQ * 16"

text \<open>
  The body of the \<open>setInterval\<close> callback; \<open>capturedIsPlaying\<close> is the value of \<open>isPlaying\<close>
  in the closure, \<open>transportSeconds\<close> the reading of \<open>Tone.Transport.seconds\<close>.
\<close>

definition intervalCallback :: "bool \<Rightarrow> rat \<Rightarrow> playback \<Rightarrow> playback" where
  "intervalCallback capturedIsPlaying transportSeconds st =
     (if \<not> capturedIsPlaying then st
      else
        (let currentTick = (transportSeconds / 60) * of_int BPM * of_int PPQ
         in if currentTick \<le> maxTicks then st\<lparr>cursorTick := currentTick\<rparr>
            else st\<lparr>transportRunning := False, scheduled := [], isPlaying := False,
                    cursorTick := 0, timelineRef := None\<rparr>))"

definition playNotes :: "Note list \<Rightarrow> playback \<Rightarrow> playback" where
  "playNotes ns st =
     (if isPlaying st then
        st\<lparr>transportRunning := False, scheduled := [], isPlaying := False, cursorTick := 0,
           timelineRef := None\<rparr>
      else
        st\<lparr>isPlaying := True, cursorTick := 0,
           scheduled := map (\<lambda>n. (of_int (tick n) / of_int PPQ) * (60 / of_int BPM)) ns,
           transportRunning := True,
           timelineRef := Some (isPlaying st)\<rparr>)"

text \<open>The timer fires, 50 ms after the last time, while it is installed.\<close>

definition timerFires :: "rat \<Rightarrow> playback \<Rightarrow> playback" where
  "timerFires transportSeconds st =
     (case timelineRef st of
        None \<Rightarrow> st
      | Some capturedIsPlaying \<Rightarrow> intervalCallback capturedIsPlaying transportSeconds st)"

section \<open>The step-grid editor (the second PianoRoll component)\<close>

record GridNote =
  id_g :: string
  pitch :: int
  start :: int
  duration :: int
  velocity :: int

record PianoRollState =
  notes_g :: "GridNote list"
  isPlaying_g :: bool
  currentPosition :: int
  bpm_g :: int
  gridSize :: int
  selectedNotes :: "string list"

text \<open>
  \<open>now\<close> is the reading of \<open>Date.now()\<close> and \<open>rnd\<close> the text of the number that
  \<open>Math.random()\<close> returned, as the template literal renders it.
\<close>

definition addNote :: "int \<Rightarrow> int \<Rightarrow> int \<Rightarrow> nat \<Rightarrow> string \<Rightarrow> PianoRollState \<Rightarrow> PianoRollState" where
  "addNote p s dur now rnd prev =
     prev\<lparr>notes_g := notes_g prev @
       [\<lparr>id_g = ''note-'' @ numberToString now @ ''-'' @ rnd, pitch = p, start = s,
         duration = dur, velocity = 80\<rparr>]\<rparr>"

definition removeNote :: "string \<Rightarrow> PianoRollState \<Rightarrow> PianoRollState" where
  "removeNote noteId' prev = prev\<lparr>notes_g := filter (\<lambda>n. id_g n \<noteq> noteId') (notes_g prev)\<rparr>"

section \<open>Invariants of the canvas editor\<close>

subsection \<open>Vocabulary for the tick invariant\<close>

text \<open>A start tick on the grid of the editor: a nonnegative multiple of PPQ/8.\<close>

definition onGrid :: "Note \<Rightarrow> bool" where
  "onGrid n = (0 \<le> tick n \<and> (PPQ div 8) dvd tick n)"

text \<open>A start tick that a pointer handler wrote: a nonnegative multiple of PPQ/4.\<close>

definition onSixteenth :: "Note \<Rightarrow> bool" where
  "onSixteenth n = (0 \<le> tick n \<and> (PPQ div 4) dvd tick n)"

definition tickInvariant :: "editor \<Rightarrow> bool" where
  "tickInvariant st = (0 < zoom st \<and> list_all onGrid (notes st))"

subsection \<open>Vocabulary for the identifiers\<close>

text \<open>
  The ids in the store are pairwise different, and each is either the id of an imported note
  (it contains the letter i) or the decimal numeral of a clock reading in \<open>T\<close>.
\<close>

definition idInvariant :: "nat set \<Rightarrow> editor \<Rightarrow> bool" where
  "idInvariant T st =
     (distinct (map id_n (notes st)) \<and>
      list_all (\<lambda>n. CHR ''i'' \<in> set (id_n n) \<or> id_n n \<in> numberToString ` T) (notes st))"

section \<open>Evaluation lemmas\<close>

lemmas js_defs = toInt32_def jsAnd_def jsOr_def jsShr_def toUint8_def Uint8Array_def
  encodeText_def

lemma tempoMpq_div: "bpm \<noteq> 0 \<Longrightarrow> tempoMpq bpm = (120000000 + bpm) div (2 * bpm)"
proof -
  assume nz: "bpm \<noteq> 0"
  have "(60000000 :: rat) / of_int bpm + 1 / 2 = of_int (120000000 + bpm) / of_int (2 * bpm)"
    using nz by (simp add: field_simps)
  then show ?thesis
    unfolding tempoMpq_def mathRound_def by (simp only: floor_divide_of_int_eq)
qed

lemma tempoEvent_480:
  "tempoEvent 480 = \<lparr>ev_tick = 0, ev_bytes = [0x00, 0xff, 0x51, 0x03, 0x01, 0xe8, 0x48]\<rparr>"
  by (simp add: tempoEvent_def tempoMpq_div js_defs)

lemma tempoEvent_120:
  "tempoEvent 120 = \<lparr>ev_tick = 0, ev_bytes = [0x00, 0xff, 0x51, 0x03, 0x07, 0xa1, 0x20]\<rparr>"
  by (simp add: tempoEvent_def tempoMpq_div js_defs)

lemma writeVlq_0: "writeVlq 0 = [0]"
  by (simp add: writeVlq_def vlGroups.simps js_defs)

lemma headerChunk_120: "headerChunk 120 = [77, 84, 104, 100, 0, 0, 0, 6, 0, 0, 0, 1, 0, 120]"
  by (simp add: headerChunk_def writeUint32BE_def writeUint16BE_def js_defs)

lemma headerChunk_480: "headerChunk 480 = [77, 84, 104, 100, 0, 0, 0, 6, 0, 0, 0, 1, 1, 224]"
  by (simp add: headerChunk_def writeUint32BE_def writeUint16BE_def js_defs)

lemma trackBytes_empty_480:
  "trackBytes [] 480 = [0x00, 0xff, 0x51, 0x03, 0x01, 0xe8, 0x48, 0x00, 0xff, 0x2f, 0x00]"
  by (simp add: trackBytes_def tempoEvent_480 writeEvent_def writeVlq_0)

lemma trackBytes_empty_120:
  "trackBytes [] 120 = [0x00, 0xff, 0x51, 0x03, 0x07, 0xa1, 0x20, 0x00, 0xff, 0x2f, 0x00]"
  by (simp add: trackBytes_def tempoEvent_120 writeEvent_def writeVlq_0)

section \<open>C1: the exported header and tempo event\<close>

text \<open>
  Called with the resolution and the tempo in the order of its parameter list, the writer
  produces the division field 480 (\<open>0x01 0xE0\<close>) and the tempo event
  \<open>00 FF 51 03 07 A1 20\<close>.
\<close>

lemma writeMidi_480_120:
  "writeMidi [] 480 120 =
     [77, 84, 104, 100, 0, 0, 0, 6, 0, 0, 0, 1, 1, 224,
      77, 84, 114, 107, 0, 0, 0, 11,
      0x00, 0xff, 0x51, 0x03, 0x07, 0xa1, 0x20, 0x00, 0xff, 0x2f, 0x00]"
  by (simp add: writeMidi_def trackBytes_empty_120 headerChunk_480 writeUint32BE_def js_defs)

text \<open>
  Claim C1 (fails on the code). For the document constants PPQ = 480 and BPM = 120 the
  Export MIDI operation should write the division field 480 and the tempo event
  \<open>00 FF 51 03 07 A1 20\<close>. The button passes the tempo where the writer expects the
  resolution and the resolution where it expects the tempo: whatever the notes, the
  division field of the exported header is \<open>0x00 0x78\<close> = 120, and for the empty store the
  first track event is \<open>00 FF 51 03 01 E8 48\<close> (125000 microseconds per quarter, the
  tempo of 480 beats per minute).
\<close>

theorem C1_exportMIDI_swapped_arguments:
  "take 14 (exportMIDI ns) = [77, 84, 104, 100, 0, 0, 0, 6, 0, 0, 0, 1, 0, 120] \<and>
   exportMIDI [] =
     [77, 84, 104, 100, 0, 0, 0, 6, 0, 0, 0, 1, 0, 120,
      77, 84, 114, 107, 0, 0, 0, 11,
      0x00, 0xff, 0x51, 0x03, 0x01, 0xe8, 0x48, 0x00, 0xff, 0x2f, 0x00]"
proof
  show "take 14 (exportMIDI ns) = [77, 84, 104, 100, 0, 0, 0, 6, 0, 0, 0, 1, 0, 120]"
    by (simp add: exportMIDI_def writeMidi_def headerChunk_120 PPQ_def BPM_def Let_def
        Uint8Array_def toUint8_def)
  show "exportMIDI [] =
     [77, 84, 104, 100, 0, 0, 0, 6, 0, 0, 0, 1, 0, 120,
      77, 84, 114, 107, 0, 0, 0, 11,
      0x00, 0xff, 0x51, 0x03, 0x01, 0xe8, 0x48, 0x00, 0xff, 0x2f, 0x00]"
    by (simp add: exportMIDI_def writeMidi_def trackBytes_empty_480 headerChunk_120 PPQ_def
        BPM_def writeUint32BE_def js_defs)
qed

section \<open>C3: the variable-length quantity\<close>

lemma jsAnd_7f: "0 \<le> v \<Longrightarrow> v < 2 ^ 31 \<Longrightarrow> jsAnd v 0x7f = v mod 128"
proof -
  assume a: "0 \<le> v" "v < 2 ^ 31"
  have "v AND 127 = take_bit 7 v" by (simp add: take_bit_eq_mask mask_eq_exp_minus_1)
  then show ?thesis using a by (simp add: jsAnd_def toInt32_id take_bit_eq_mod)
qed

lemma jsShr_7: "0 \<le> v \<Longrightarrow> v < 2 ^ 31 \<Longrightarrow> jsShr v 7 = v div 128"
  by (simp add: jsShr_def toInt32_id drop_bit_eq_div)

lemma take_bit_and_exp: "take_bit n (g::int) AND 2 ^ n = 0"
  by (rule bit_eqI) (auto simp add: bit_simps)

lemma or_128: "0 \<le> g \<Longrightarrow> g < 128 \<Longrightarrow> g OR 128 = g + (128::int)"
proof -
  assume a: "0 \<le> g" "g < 128"
  then have t: "take_bit 7 g = g" by (simp add: take_bit_eq_mod)
  have "g AND 128 = 0" using take_bit_and_exp [of 7 g] t by simp
  then show ?thesis by (simp add: disjunctive_add_eq_or)
qed

lemma jsOr_80: "0 \<le> g \<Longrightarrow> g < 128 \<Longrightarrow> jsOr g 0x80 = g + 128"
  by (simp add: jsOr_def toInt32_id or_128)

text \<open>Inside the signed 32-bit range the loop computes the base-128 groups.\<close>

lemma vlGroups_groups128:
  "0 \<le> v \<Longrightarrow> v < 2 ^ 31 \<Longrightarrow> vlGroups v vl = map int (groups128 (nat v)) @ vl"
proof (induction v vl rule: vlGroups.induct)
  case (1 v vl)
  have shr: "jsShr v 7 = v div 128" and msk: "jsAnd v 0x7f = v mod 128"
    using 1(2,3) by (simp_all add: jsShr_7 jsAnd_7f)
  show ?case
  proof (cases "128 \<le> v")
    case True
    then have pos: "0 < v div 128" by (simp add: pos_imp_zdiv_pos_iff)
    have lt: "v div 128 < 2 ^ 31" using 1(2,3) by linarith
    have ge: "0 \<le> v div 128" using pos by simp
    have step: "vlGroups v vl = vlGroups (v div 128) (v mod 128 # vl)"
      using pos by (subst vlGroups.simps) (simp add: shr msk)
    have ih: "vlGroups (v div 128) (v mod 128 # vl)
        = map int (groups128 (nat (v div 128))) @ (v mod 128 # vl)"
      using 1(1) pos ge lt unfolding shr msk by simp
    have nb: "\<not> nat v < 128" using True by linarith
    have g: "groups128 (nat v) = groups128 (nat v div 128) @ [nat v mod 128]"
      using nb by (subst groups128.simps) simp
    have d: "nat (v div 128) = nat v div 128" using 1(2) by (simp add: nat_div_distrib)
    have m: "int (nat v mod 128) = v mod 128" using 1(2) by (simp add: zmod_int)
    show ?thesis unfolding step ih g d by (simp add: m)
  next
    case False
    then have z: "v div 128 = 0" using 1(2) by simp
    have md: "v mod 128 = v" using False 1(2) by simp
    have small: "nat v < 128" using False by linarith
    have l: "vlGroups v vl = v mod 128 # vl"
      by (subst vlGroups.simps) (simp add: shr msk z)
    have r: "groups128 (nat v) = [nat v]"
      using small by (subst groups128.simps) simp
    show ?thesis using 1(2) md l r by simp
  qed
qed

lemma groups128_nonempty: "groups128 n \<noteq> []"
  by (subst groups128.simps) simp

lemma groups128_bound: "g \<in> set (groups128 n) \<Longrightarrow> g < 128"
proof (induction n arbitrary: g rule: groups128.induct)
  case (1 n)
  show ?case
  proof (cases "n < 128")
    case True
    then have "groups128 n = [n]" by (subst groups128.simps) simp
    with 1(2) True show ?thesis by simp
  next
    case False
    then have "groups128 n = groups128 (n div 128) @ [n mod 128]"
      by (subst groups128.simps) simp
    with 1(2) have "g \<in> set (groups128 (n div 128)) \<or> g = n mod 128" by auto
    then show ?thesis using 1(1) [OF False] by auto
  qed
qed

text \<open>The groups of the reference encoding are the base-128 digits of the number.\<close>

lemma groups128_value: "foldl (\<lambda>a g. a * 128 + g) 0 (groups128 n) = n"
proof (induction n rule: groups128.induct)
  case (1 n)
  show ?case
  proof (cases "n < 128")
    case True
    then have "groups128 n = [n]" by (subst groups128.simps) simp
    then show ?thesis by simp
  next
    case False
    then have "groups128 n = groups128 (n div 128) @ [n mod 128]"
      by (subst groups128.simps) simp
    then show ?thesis using 1 [OF False] by simp
  qed
qed

lemma index_loop_butlast:
  assumes "vl \<noteq> []"
  shows "map (\<lambda>i. if i \<noteq> length vl - 1 then f (vl ! i) else vl ! i) [0..<length vl]
    = map f (butlast vl) @ [last vl]"
proof (rule nth_equalityI)
  show "length (map (\<lambda>i. if i \<noteq> length vl - 1 then f (vl ! i) else vl ! i) [0..<length vl])
    = length (map f (butlast vl) @ [last vl])"
    using assms by simp
next
  fix i
  assume "i < length (map (\<lambda>i. if i \<noteq> length vl - 1 then f (vl ! i) else vl ! i)
    [0..<length vl])"
  then have i: "i < length vl" by simp
  show "map (\<lambda>i. if i \<noteq> length vl - 1 then f (vl ! i) else vl ! i) [0..<length vl] ! i
    = (map f (butlast vl) @ [last vl]) ! i"
  proof (cases "i = length vl - 1")
    case True
    then show ?thesis using i assms by (simp add: nth_append last_conv_nth)
  next
    case False
    then have "i < length (butlast vl)" using i by simp
    then show ?thesis using i False by (simp add: nth_append nth_butlast)
  qed
qed

lemma writeVlq_vlqSpec:
  assumes "0 \<le> delta" "delta < 2 ^ 31"
  shows "writeVlq delta = vlqSpec delta"
proof -
  let ?gs = "groups128 (nat delta)"
  have vl: "vlGroups delta [] = map int ?gs" using assms by (simp add: vlGroups_groups128)
  have ne: "map int ?gs \<noteq> []" by (simp add: groups128_nonempty)
  have "writeVlq delta = map (\<lambda>g. jsOr g 0x80) (butlast (map int ?gs)) @ [last (map int ?gs)]"
    unfolding writeVlq_def Let_def vl by (rule index_loop_butlast [OF ne])
  also have "map (\<lambda>g. jsOr g 0x80) (butlast (map int ?gs))
      = map (\<lambda>g. int g + 128) (butlast ?gs)"
  proof -
    have "\<And>g. g \<in> set (butlast ?gs) \<Longrightarrow> jsOr (int g) 0x80 = int g + 128"
      using groups128_bound in_set_butlastD by (fastforce intro: jsOr_80)
    then show ?thesis by (simp add: map_butlast [symmetric] del: map_butlast)
  qed
  also have "last (map int ?gs) = int (last ?gs)" by (simp add: last_map groups128_nonempty)
  finally show ?thesis by (simp add: vlqSpec_def Let_def)
qed

text \<open>
  Claim C3, as stated for every nonnegative integer delta, fails on the code: the loop
  works on the ToInt32 image of the delta, so a delta of \<open>2^31\<close> is written as the single
  byte 0 instead of its five groups.
\<close>

theorem C3_counterexample:
  "writeVlq 2147483648 = [0x00] \<and> vlqSpec 2147483648 = [0x88, 0x80, 0x80, 0x80, 0x00] \<and>
   writeVlq 2147483648 \<noteq> vlqSpec 2147483648"
  by (simp add: writeVlq_def vlGroups.simps js_defs vlqSpec_def groups128.simps)

text \<open>
  Claim C3, amended: for every integer delta with \<open>0 \<le> delta < 2^31\<close> the exporter's
  encoding is the reference encoding (the 7-bit groups of the delta, most significant
  group first, one byte per group, the continuation bit on every byte except the last, at
  least one byte); and 0, 127, 128 and 16383 are written as \<open>00\<close>, \<open>7F\<close>, \<open>81 00\<close> and
  \<open>FF 7F\<close>.
\<close>

theorem C3_writeVlq_is_vlq:
  assumes "0 \<le> delta" and "delta < 2 ^ 31"
  shows "writeVlq delta = vlqSpec delta \<and>
    writeVlq 0 = [0x00] \<and> writeVlq 127 = [0x7f] \<and> writeVlq 128 = [0x81, 0x00] \<and>
    writeVlq 16383 = [0xff, 0x7f]"
proof (intro conjI)
  show "writeVlq delta = vlqSpec delta" using assms by (rule writeVlq_vlqSpec)
  show "writeVlq 0 = [0x00]" by (rule writeVlq_0)
  show "writeVlq 127 = [0x7f]" by (simp add: writeVlq_def vlGroups.simps js_defs)
  show "writeVlq 128 = [0x81, 0x00]" by (simp add: writeVlq_def vlGroups.simps js_defs upt_rec)
  show "writeVlq 16383 = [0xff, 0x7f]"
    by (simp add: writeVlq_def vlGroups.simps js_defs upt_rec)
qed

theorem C3_witness:
  "(0::int) \<le> 300 \<and> (300::int) < 2 ^ 31 \<and> writeVlq 300 = [0x82, 0x2c]"
  using C3_writeVlq_is_vlq [of 300] by (simp add: vlqSpec_def groups128.simps)

section \<open>The scan loop of the importer\<close>

lemma scan_prefix:
  "foldl (scanStep clock d) \<lparr>importedNotes = [], currentTick = 0\<rparr> [0..<k] =
     \<lparr>importedNotes = map (importedNote clock d) (filter (acceptedAt d) [0..<k]),
      currentTick = (PPQ div 8) * int (noteOnsBefore d k)\<rparr>"
proof (induction k)
  case 0
  show ?case by (simp add: noteOnsBefore_def)
next
  case (Suc k)
  have "foldl (scanStep clock d) \<lparr>importedNotes = [], currentTick = 0\<rparr> [0..<Suc k] =
      scanStep clock d
        (foldl (scanStep clock d) \<lparr>importedNotes = [], currentTick = 0\<rparr> [0..<k]) k"
    by simp
  also have "\<dots> = scanStep clock d
      \<lparr>importedNotes = map (importedNote clock d) (filter (acceptedAt d) [0..<k]),
       currentTick = (PPQ div 8) * int (noteOnsBefore d k)\<rparr> k"
    by (simp only: Suc)
  also have "\<dots> =
      \<lparr>importedNotes = map (importedNote clock d) (filter (acceptedAt d) [0..<Suc k]),
       currentTick = (PPQ div 8) * int (noteOnsBefore d (Suc k))\<rparr>"
    by (simp add: scanStep_def Let_def noteOnsBefore_def isNoteOnAt_def acceptedAt_def
        importedNote_def algebra_simps)
  finally show ?case .
qed

text \<open>The recovered notes are the notes built at the accepted offsets, in scan order.\<close>

lemma scanNotes_char:
  "scanNotes clock d = map (importedNote clock d) (acceptedOffsets d)"
  by (simp add: scanNotes_def scan_prefix acceptedOffsets_def)

section \<open>C2: the three-byte buffers\<close>

text \<open>With one more byte behind it the note-on is found.\<close>

lemma scanNotes_four_bytes:
  "scanNotes clock [0x90, 60, 100, 0] =
     [\<lparr>id_n = ''imported_'' @ numberToString (clock 0) @ ''_0'', tick = 0, length_n = 120,
       midi = 60, vel = 100\<rparr>]"
  by (simp add: scanNotes_def scanStep_def js_defs PPQ_def numberToString.simps digitChar_def)

text \<open>
  Claim C2 (fails on the code). The buffer \<open>[0x90, 60, 100]\<close> should yield one note of pitch
  60 and the buffer \<open>[0x90, 60, 0]\<close> none. The loop runs while \<open>i < midiData.length - 3\<close>,
  so on a buffer of three bytes its body never runs: both buffers yield no note, and the
  import leaves the store as it was.
\<close>

theorem C2_three_byte_buffers:
  "scanNotes clock [0x90, 60, 100] = [] \<and> scanNotes clock [0x90, 60, 0] = [] \<and>
   handleFileImport (FileBytes [0x90, 60, 100]) clock st = st"
  by (simp add: scanNotes_def handleFileImport_def)

section \<open>C8: the synthetic start ticks\<close>

text \<open>
  Claim C8, as stated (the k-th accepted note starts at k times PPQ/8), fails on the code:
  the counter also advances on a note-on status byte that is rejected. In the buffer below
  the first status byte has velocity 0 and is rejected, and the only accepted note
  (number 0) starts at tick 60.
\<close>

theorem C8_counterexample:
  "map tick (scanNotes (constClock 5) [0x90, 0, 0, 0x90, 60, 100, 0]) = [60] \<and>
   tick (scanNotes (constClock 5) [0x90, 0, 0, 0x90, 60, 100, 0] ! 0) \<noteq> 0 * (PPQ div 8)"
  by (simp add: scanNotes_def scanStep_def js_defs PPQ_def upt_rec)

text \<open>
  Claim C8, amended: for every buffer, the accepted note-on events are recovered in scan
  order; the note accepted at scan offset \<open>i\<close> starts at PPQ/8 times the number of note-on
  status bytes (accepted or rejected) at the offsets before \<open>i\<close>; and every recovered note
  has the length PPQ/4.
\<close>

theorem C8_synthetic_ticks:
  "map tick (scanNotes clock d) =
     map (\<lambda>i. (PPQ div 8) * int (noteOnsBefore d i)) (acceptedOffsets d) \<and>
   map length_n (scanNotes clock d) = replicate (length (acceptedOffsets d)) (PPQ div 4)"
  by (simp add: scanNotes_char importedNote_def comp_def map_replicate_const)

section \<open>Floors of numeral fractions\<close>

lemma floor_rat_numeral_div [simp]:
  "\<lfloor>(numeral a :: rat) / numeral b\<rfloor> = numeral a div numeral b"
proof -
  have "(numeral a :: rat) / numeral b = of_int (numeral a) / of_int (numeral b)" by simp
  then show ?thesis by (simp only: floor_divide_of_int_eq)
qed

lemma floor_rat_neg_numeral_div [simp]:
  "\<lfloor>- (numeral a :: rat) / numeral b\<rfloor> = - numeral a div numeral b"
proof -
  have "- (numeral a :: rat) / numeral b = of_int (- numeral a) / of_int (numeral b)" by simp
  then show ?thesis by (simp only: floor_divide_of_int_eq)
qed

lemma floor_rat_neg_numeral_div' [simp]:
  "\<lfloor>- ((numeral a :: rat) / numeral b)\<rfloor> = - numeral a div numeral b"
  using floor_rat_neg_numeral_div [of a b] by simp

section \<open>C4: snapping to the grid\<close>

lemma snappedTick_snapToGrid: "of_int (snappedTick n) = snapToGrid (of_int n) 4"
proof -
  have "(of_int n :: rat) / (of_int PPQ / 4) = of_int n / of_int 120" by (simp add: PPQ_def)
  then have "\<lfloor>(of_int n :: rat) / (of_int PPQ / 4)\<rfloor> = n div 120"
    by (simp only: floor_divide_of_int_eq)
  then show ?thesis by (simp add: snapToGrid_def snappedTick_def PPQ_def)
qed

text \<open>
  Claim C4. For every tick \<open>t \<ge> 0\<close> and every grid division \<open>d > 0\<close>, snapping returns a
  multiple of PPQ/d, which is at most \<open>t\<close> and at least every multiple of PPQ/d that is at
  most \<open>t\<close> (it floors); and snapping a snapped tick changes nothing. The \<open>snappedTick\<close> of
  the two pointer handlers is this operation at grid division 4.
\<close>

theorem C4_snapToGrid_floors:
  fixes t d :: rat
  assumes "0 \<le> t" and "0 < d"
  shows "(\<exists>k::int. snapToGrid t d = of_int k * (of_int PPQ / d)) \<and>
    snapToGrid t d \<le> t \<and>
    (\<forall>m::int. of_int m * (of_int PPQ / d) \<le> t
       \<longrightarrow> of_int m * (of_int PPQ / d) \<le> snapToGrid t d) \<and>
    snapToGrid (snapToGrid t d) d = snapToGrid t d \<and>
    of_int (snappedTick n) = snapToGrid (of_int n) 4"
proof -
  define g where "g = (of_int PPQ :: rat) / d"
  have gpos: "0 < g" using assms by (simp add: g_def PPQ_def)
  have s: "snapToGrid t d = of_int \<lfloor>t / g\<rfloor> * g" by (simp add: snapToGrid_def g_def)
  have le: "of_int \<lfloor>t / g\<rfloor> * g \<le> t"
  proof -
    have "of_int \<lfloor>t / g\<rfloor> * g \<le> (t / g) * g"
      using gpos by (intro mult_right_mono of_int_floor_le) simp
    also have "(t / g) * g = t" using gpos by simp
    finally show ?thesis .
  qed
  have gr: "of_int m * g \<le> of_int \<lfloor>t / g\<rfloor> * g" if "of_int m * g \<le> t" for m :: int
  proof -
    from that gpos have "of_int m \<le> t / g" by (simp add: pos_le_divide_eq)
    then have "m \<le> \<lfloor>t / g\<rfloor>" by (simp add: le_floor_iff)
    then have "(of_int m :: rat) \<le> of_int \<lfloor>t / g\<rfloor>" by simp
    then show ?thesis using gpos by (simp add: mult_right_mono)
  qed
  have idem: "of_int \<lfloor>(of_int \<lfloor>t / g\<rfloor> * g) / g\<rfloor> * g = of_int \<lfloor>t / g\<rfloor> * g"
    using gpos by simp
  have "(\<exists>k::int. snapToGrid t d = of_int k * g) \<and> snapToGrid t d \<le> t \<and>
    (\<forall>m::int. of_int m * g \<le> t \<longrightarrow> of_int m * g \<le> snapToGrid t d) \<and>
    snapToGrid (snapToGrid t d) d = snapToGrid t d"
    using le gr idem s by (auto simp: snapToGrid_def g_def)
  then show ?thesis unfolding g_def using snappedTick_snapToGrid [of n] by simp
qed

theorem C4_witness:
  "(0::rat) \<le> 250 \<and> (0::rat) < 4 \<and> snapToGrid 250 4 = 240 \<and> snapToGrid 250 4 \<le> 250 \<and>
   snapToGrid (snapToGrid 250 4) 4 = snapToGrid 250 4"
  using C4_snapToGrid_floors [of 250 4] by (simp add: snapToGrid_def PPQ_def)

section \<open>C5: the cursor and the automatic stop\<close>

text \<open>
  \<open>playNotes\<close> installs the timer only in the branch where \<open>isPlaying\<close> is false, and the
  callback reads that same variable: its first statement, \<open>if (!isPlaying) return\<close>,
  returns on every firing.
\<close>

lemma timer_never_acts:
  "\<not> isPlaying st \<Longrightarrow> timerFires transportSeconds (playNotes ns st) = playNotes ns st"
  by (simp add: timerFires_def playNotes_def intervalCallback_def)

text \<open>
  With the flag true the callback would move the cursor, and stop beyond the boundary; at
  the boundary itself (8 seconds at 120 beats per minute, tick 7680) it would still set the
  cursor.
\<close>

lemma intervalCallback_live:
  "intervalCallback True 4 st = st\<lparr>cursorTick := 3840\<rparr> \<and>
   intervalCallback True 8 st = st\<lparr>cursorTick := 7680\<rparr> \<and>
   intervalCallback True 9 st =
     st\<lparr>transportRunning := False, scheduled := [], isPlaying := False, cursorTick := 0,
        timelineRef := None\<rparr>"
  by (simp add: intervalCallback_def maxTicks_def PPQ_def BPM_def)

text \<open>
  Claim C5 (fails on the code). While playing, the cursor should follow the transport
  time, and playback should stop by itself once the cursor reaches \<open>PPQ * 16\<close> = 7680 ticks.
  Playback is started from the initial state; the timer then fires with the transport at
  4 seconds (tick 3840) and at 9 seconds (tick 8640, beyond the boundary). Both firings
  leave the state as it is: still playing, the cursor at 0, the transport running, the
  timer installed.
\<close>

theorem C5_timer_reads_stale_flag:
  "timerFires 4 (playNotes [] initialPlayback) = playNotes [] initialPlayback \<and>
   timerFires 9 (playNotes [] initialPlayback) = playNotes [] initialPlayback \<and>
   isPlaying (timerFires 9 (playNotes [] initialPlayback)) \<and>
   cursorTick (timerFires 9 (playNotes [] initialPlayback)) = 0 \<and>
   transportRunning (timerFires 9 (playNotes [] initialPlayback))"
  by (simp add: timerFires_def playNotes_def intervalCallback_def initialPlayback_def)

section \<open>Evaluating the handlers\<close>

lemmas editor_defs = handleCanvasMouseDown_def handleCanvasMouseMove_def
  handleCanvasMouseUp_def handleCanvasWheel_def handleCanvasRightClick_def handleDeleteKey_def
  handleEscapeKey_def clearNotes_def setZoom_def handleFileImport_def

lemmas canvas_defs = visibleBeats_def pianoWidth_def canvasWidth_def canvasHeight_def
  totalKeys_def keyCount_def PPQ_def topMidi_def pixelsPerTick_def noteAt_def snappedTick_def

section \<open>C7: the pitch of a moved note\<close>

text \<open>
  Claim C7, as stated (the pitch is clamped to 0..127), fails on the code. The view is
  scrolled to the top (eight wheel steps), a note is put on the top row (pitch 108), picked
  up 5 pixels below the upper edge of the canvas and dragged to the edge: the pointer asks
  for pitch 109, which lies in 0..127, and the note stays at 108.
\<close>

theorem C7_counterexample:
  "map midi (notes (session
      [Wheel (- 1), Wheel (- 1), Wheel (- 1), Wheel (- 1), Wheel (- 1), Wheel (- 1),
       Wheel (- 1), Wheel (- 1), MouseDown 155 5 1000, MouseDown 155 5 2000,
       MouseMove 155 0])) = [108] \<and>
   dragInfo (session
      [Wheel (- 1), Wheel (- 1), Wheel (- 1), Wheel (- 1), Wheel (- 1), Wheel (- 1),
       Wheel (- 1), Wheel (- 1), MouseDown 155 5 1000, MouseDown 155 5 2000]) =
     Some \<lparr>isDragging = True, isResizing = False, noteId = ''1000'', startX = 155,
           startY = 5, originalTick = 360, originalMidi = 108, originalLength = 120\<rparr> \<and>
   requestedMidi \<lparr>isDragging = True, isResizing = False, noteId = ''1000'', startX = 155,
           startY = 5, originalTick = 360, originalMidi = 108, originalLength = 120\<rparr> 0 = 109"
  by (simp add: session_def initialEditor_def editor_defs canvas_defs requestedMidi_def
      numberToString.simps digitChar_def)

text \<open>
  Claim C7, amended: for every move of an existing note during a drag, the resulting pitch
  of the dragged note is the requested pitch clamped to the range 21..108 (the 88 keys): a
  requested pitch below 21 results in 21, one above 108 in 108, and a requested pitch in
  21..108 is kept exactly. The pitch of every other note is left as it is.
\<close>

theorem C7_move_clamps_pitch:
  assumes "dragInfo st = Some d" and "isDragging d"
  shows "map midi (notes (handleCanvasMouseMove x y st)) =
      map (\<lambda>n. if id_n n = noteId d then max 21 (min 108 (requestedMidi d y)) else midi n)
        (notes st) \<and>
    (requestedMidi d y < 21 \<longrightarrow> max 21 (min 108 (requestedMidi d y)) = 21) \<and>
    (108 < requestedMidi d y \<longrightarrow> max 21 (min 108 (requestedMidi d y)) = 108) \<and>
    (21 \<le> requestedMidi d y \<and> requestedMidi d y \<le> 108
       \<longrightarrow> max 21 (min 108 (requestedMidi d y)) = requestedMidi d y)"
  using assms
  by (simp add: handleCanvasMouseMove_def requestedMidi_def Let_def comp_def)

theorem C7_witness:
  "dragInfo (handleCanvasMouseDown 155 5 2000
       (handleCanvasMouseDown 155 5 1000 initialEditor)) =
     Some \<lparr>isDragging = True, isResizing = False, noteId = ''1000'', startX = 155,
           startY = 5, originalTick = 360, originalMidi = 84, originalLength = 120\<rparr> \<and>
   map midi (notes (handleCanvasMouseMove 155 30
     (handleCanvasMouseDown 155 5 2000
       (handleCanvasMouseDown 155 5 1000 initialEditor)))) = [82]"
  using C7_move_clamps_pitch
    [of "handleCanvasMouseDown 155 5 2000 (handleCanvasMouseDown 155 5 1000 initialEditor)"
     "\<lparr>isDragging = True, isResizing = False, noteId = ''1000'', startX = 155,
           startY = 5, originalTick = 360, originalMidi = 84, originalLength = 120\<rparr>" 155 30]
  by (simp add: initialEditor_def editor_defs canvas_defs requestedMidi_def
      numberToString.simps digitChar_def)

section \<open>C9: removing or moving with an unknown id\<close>

text \<open>
  Claim C9. An id that no note of the store carries: removing by it (the step-grid
  editor's \<open>removeNote\<close>, the Delete key of the canvas editor) and moving by it (a mouse
  move whose drag refers to it) leave the store as it is; nothing is added, removed or
  changed, and nothing fails.
\<close>

theorem C9_unknown_id_is_noop:
  assumes "\<forall>n \<in> set (notes_g prev). id_g n \<noteq> i"
    and "\<forall>n \<in> set (notes st). id_n n \<noteq> j"
  shows "removeNote i prev = prev \<and>
    (dragInfo st = Some d \<and> noteId d = j \<longrightarrow> handleCanvasMouseMove x y st = st) \<and>
    (selectedRef st = Some j \<longrightarrow> notes (handleDeleteKey st) = notes st)"
proof (intro conjI impI)
  have "filter (\<lambda>n. id_g n \<noteq> i) (notes_g prev) = notes_g prev"
    using assms(1) by (simp add: filter_id_conv)
  then show "removeNote i prev = prev" by (simp add: removeNote_def)
next
  assume a: "dragInfo st = Some d \<and> noteId d = j"
  have "map (\<lambda>n. if id_n n = noteId d then n\<lparr>tick := t, midi := m\<rparr> else n) (notes st)
      = notes st" for t m
    using assms(2) a by (simp add: map_idI)
  then show "handleCanvasMouseMove x y st = st"
    using a by (simp add: handleCanvasMouseMove_def Let_def)
next
  assume a: "selectedRef st = Some j"
  have "filter (\<lambda>n. id_n n \<noteq> j) (notes st) = notes st"
    using assms(2) by (simp add: filter_id_conv)
  then show "notes (handleDeleteKey st) = notes st"
    using a by (simp add: handleDeleteKey_def)
qed

theorem C9_witness:
  "list_all (\<lambda>n. id_g n \<noteq> ''note-2-0.25'')
     (notes_g \<lparr>notes_g = [\<lparr>id_g = ''note-1-0.5'', pitch = 60, start = 0,
        duration = 1, velocity = 80\<rparr>], isPlaying_g = False, currentPosition = 0,
        bpm_g = 120, gridSize = 16, selectedNotes = []\<rparr>) \<and>
   list_all (\<lambda>n. id_n n \<noteq> ''7'')
     (notes (handleCanvasMouseDown 155 5 1000 initialEditor)) \<and>
   removeNote ''note-2-0.25'' \<lparr>notes_g = [\<lparr>id_g = ''note-1-0.5'', pitch = 60, start = 0,
        duration = 1, velocity = 80\<rparr>], isPlaying_g = False, currentPosition = 0,
        bpm_g = 120, gridSize = 16, selectedNotes = []\<rparr> =
     \<lparr>notes_g = [\<lparr>id_g = ''note-1-0.5'', pitch = 60, start = 0,
        duration = 1, velocity = 80\<rparr>], isPlaying_g = False, currentPosition = 0,
        bpm_g = 120, gridSize = 16, selectedNotes = []\<rparr> \<and>
   notes (handleDeleteKey ((handleCanvasMouseDown 155 5 1000 initialEditor)
       \<lparr>selectedRef := Some ''7''\<rparr>)) =
     [\<lparr>id_n = ''1000'', tick = 360, length_n = 120, midi = 84, vel = 80\<rparr>]"
  using C9_unknown_id_is_noop
    [of "\<lparr>notes_g = [\<lparr>id_g = ''note-1-0.5'', pitch = 60, start = 0,
        duration = 1, velocity = 80\<rparr>], isPlaying_g = False, currentPosition = 0,
        bpm_g = 120, gridSize = 16, selectedNotes = []\<rparr>" "''note-2-0.25''"
      "(handleCanvasMouseDown 155 5 1000 initialEditor)\<lparr>selectedRef := Some ''7''\<rparr>" "''7''"]
  by (simp add: initialEditor_def editor_defs canvas_defs numberToString.simps digitChar_def)

section \<open>C10: start ticks stay on the grid\<close>

lemma snappedTick_grid: "0 \<le> t \<Longrightarrow> 0 \<le> snappedTick t \<and> (PPQ div 4) dvd snappedTick t"
  by (simp add: snappedTick_def PPQ_def pos_imp_zdiv_nonneg_iff)

lemma pixelsPerTick_pos: "0 < zoom st \<Longrightarrow> 0 < pixelsPerTick st"
  by (simp add: pixelsPerTick_def Let_def canvasWidth_def pianoWidth_def PPQ_def visibleBeats_def)

lemma onSixteenth_onGrid: "onSixteenth n \<Longrightarrow> onGrid n"
proof -
  assume a: "onSixteenth n"
  have "(PPQ div 8) dvd (PPQ div 4)" by (simp add: PPQ_def)
  with a show ?thesis unfolding onSixteenth_def onGrid_def by (meson dvd_trans)
qed

lemma click_note_onSixteenth:
  assumes "0 < zoom st"
  shows "list_all (\<lambda>n. n \<in> set (notes st) \<or> onSixteenth n)
    (notes (handleCanvasMouseDown x y now st))"
proof (cases "x < pianoWidth")
  case True
  then show ?thesis by (simp add: handleCanvasMouseDown_def list_all_iff)
next
  case False
  then have "0 \<le> (x - pianoWidth) / pixelsPerTick st"
    using pixelsPerTick_pos [OF assms] by simp
  then have "0 \<le> \<lfloor>(x - pianoWidth) / pixelsPerTick st\<rfloor>" by simp
  then have "onSixteenth \<lparr>id_n = i, tick = snappedTick \<lfloor>(x - pianoWidth) / pixelsPerTick st\<rfloor>,
      length_n = l, midi = m, vel = v\<rparr>" for i l m v
    using snappedTick_grid by (simp add: onSixteenth_def)
  then show ?thesis using False
    by (simp add: handleCanvasMouseDown_def Let_def list_all_iff split: option.split)
qed

lemma drag_note_onSixteenth:
  "list_all (\<lambda>n. n \<in> set (notes st) \<or> onSixteenth n) (notes (handleCanvasMouseMove x y st))"
proof -
  have "onSixteenth (n\<lparr>tick := snappedTick (max 0 t), midi := m\<rparr>)" for n t m
    using snappedTick_grid [of "max 0 t"] by (simp add: onSixteenth_def)
  then show ?thesis
    by (auto simp add: handleCanvasMouseMove_def Let_def list_all_iff split: option.split)
qed

lemma imported_onGrid: "list_all onGrid (scanNotes clock d)"
  by (simp add: scanNotes_char list_all_iff importedNote_def onGrid_def PPQ_def)

lemma handle_tickInvariant:
  assumes "tickInvariant st" and "zoomEvent e"
  shows "tickInvariant (handle st e)"
proof (cases e)
  case (MouseDown x y now)
  have "list_all (\<lambda>n. n \<in> set (notes st) \<or> onSixteenth n) (notes (handleCanvasMouseDown x y now st))"
    using assms(1) by (intro click_note_onSixteenth) (simp add: tickInvariant_def)
  moreover have "zoom (handleCanvasMouseDown x y now st) = zoom st"
    by (simp add: handleCanvasMouseDown_def Let_def split: option.split)
  ultimately show ?thesis using assms(1) MouseDown
    by (auto simp add: tickInvariant_def list_all_iff dest: onSixteenth_onGrid)
next
  case (MouseMove x y)
  have "list_all (\<lambda>n. n \<in> set (notes st) \<or> onSixteenth n) (notes (handleCanvasMouseMove x y st))"
    by (rule drag_note_onSixteenth)
  moreover have "zoom (handleCanvasMouseMove x y st) = zoom st"
    by (simp add: handleCanvasMouseMove_def Let_def split: option.split)
  ultimately show ?thesis using assms(1) MouseMove
    by (auto simp add: tickInvariant_def list_all_iff dest: onSixteenth_onGrid)
next
  case MouseUp
  then show ?thesis using assms(1) by (simp add: tickInvariant_def handleCanvasMouseUp_def)
next
  case (Wheel deltaY)
  then show ?thesis using assms(1) by (simp add: tickInvariant_def handleCanvasWheel_def)
next
  case (RightClick x y)
  then show ?thesis using assms(1)
    by (auto simp add: tickInvariant_def handleCanvasRightClick_def list_all_iff split: option.split)
next
  case DeleteKey
  then show ?thesis using assms(1)
    by (auto simp add: tickInvariant_def handleDeleteKey_def list_all_iff split: option.split)
next
  case EscapeKey
  then show ?thesis using assms(1) by (simp add: tickInvariant_def handleEscapeKey_def)
next
  case Clear
  then show ?thesis using assms(1) by (simp add: tickInvariant_def clearNotes_def)
next
  case (SetZoom z)
  then have "0 < z" using assms(2) by (auto simp add: sliderZoom_def)
  then show ?thesis using assms(1) SetZoom by (simp add: tickInvariant_def setZoom_def)
next
  case (Import f clock)
  then show ?thesis using assms(1) imported_onGrid
    by (auto simp add: tickInvariant_def handleFileImport_def Let_def split: file_input.split)
qed

lemma foldl_tickInvariant:
  "tickInvariant st \<Longrightarrow> list_all zoomEvent evs \<Longrightarrow> tickInvariant (foldl handle st evs)"
  by (induction evs arbitrary: st) (simp_all add: handle_tickInvariant)

lemma session_tickInvariant: "list_all zoomEvent evs \<Longrightarrow> tickInvariant (session evs)"
  unfolding session_def
  by (rule foldl_tickInvariant) (simp_all add: tickInvariant_def initialEditor_def)

text \<open>
  Claim C10. In every session of the canvas editor (the zoom taken from the slider), every
  note in the store starts at a nonnegative multiple of PPQ/8 = 60. A grid click adds a note
  at a nonnegative multiple of PPQ/4 (the pointer is to the right of the piano keys, so the
  tick is not negative before it is floored); a drag puts the note at a nonnegative multiple
  of PPQ/4 (the tick is limited to 0 from below before it is floored); an import yields
  nonnegative multiples of PPQ/8.
\<close>

theorem C10_ticks_on_grid:
  assumes "list_all zoomEvent evs"
  shows "(\<forall>n \<in> set (notes (session evs)). 0 \<le> tick n \<and> (PPQ div 8) dvd tick n) \<and>
    PPQ div 8 = 60 \<and>
    (0 < zoom st \<longrightarrow>
      list_all (\<lambda>n. n \<in> set (notes st) \<or> onSixteenth n)
        (notes (handleCanvasMouseDown x y now st))) \<and>
    list_all (\<lambda>n. n \<in> set (notes st) \<or> onSixteenth n) (notes (handleCanvasMouseMove x y st)) \<and>
    list_all onGrid (scanNotes clock d)"
proof (intro conjI impI)
  have "tickInvariant (session evs)" using assms by (rule session_tickInvariant)
  then show "\<forall>n \<in> set (notes (session evs)). 0 \<le> tick n \<and> (PPQ div 8) dvd tick n"
    by (simp add: tickInvariant_def list_all_iff onGrid_def)
  show "PPQ div 8 = 60" by (simp add: PPQ_def)
  show "list_all (\<lambda>n. n \<in> set (notes st) \<or> onSixteenth n)
      (notes (handleCanvasMouseDown x y now st))" if "0 < zoom st"
    using that by (rule click_note_onSixteenth)
  show "list_all (\<lambda>n. n \<in> set (notes st) \<or> onSixteenth n)
      (notes (handleCanvasMouseMove x y st))"
    by (rule drag_note_onSixteenth)
  show "list_all onGrid (scanNotes clock d)" by (rule imported_onGrid)
qed

theorem C10_witness:
  "list_all zoomEvent [MouseDown 155 5 1000, SetZoom 2, MouseDown 300 5 3000] \<and>
   map tick (notes (session [MouseDown 155 5 1000, SetZoom 2, MouseDown 300 5 3000]))
     = [360, 600] \<and>
   list_all (\<lambda>n. 0 \<le> tick n \<and> (PPQ div 8) dvd tick n)
     (notes (session [MouseDown 155 5 1000, SetZoom 2, MouseDown 300 5 3000]))"
proof -
  have z: "list_all zoomEvent [MouseDown 155 5 1000, SetZoom 2, MouseDown 300 5 3000]"
    by (simp add: sliderZoom_def)
  have t: "map tick (notes (session [MouseDown 155 5 1000, SetZoom 2, MouseDown 300 5 3000]))
     = [360, 600]"
    by (simp add: session_def initialEditor_def editor_defs canvas_defs)
  have "list_all (\<lambda>n. 0 \<le> tick n \<and> (PPQ div 8) dvd tick n)
      (notes (session [MouseDown 155 5 1000, SetZoom 2, MouseDown 300 5 3000]))"
    using C10_ticks_on_grid [OF z, THEN conjunct1] by (simp only: list_all_iff)
  with z t show ?thesis by (intro conjI)
qed

section \<open>C6: the ids of added notes\<close>

lemma digitChar_in: "d < 10 \<Longrightarrow> digitChar d \<in> set ''0123456789''"
  unfolding digitChar_def by (rule nth_mem) simp

lemma digitChar_inj: "a < 10 \<Longrightarrow> b < 10 \<Longrightarrow> digitChar a = digitChar b \<Longrightarrow> a = b"
proof -
  assume a: "a < 10" and b: "b < 10" and e: "digitChar a = digitChar b"
  have d: "distinct ''0123456789''" by simp
  have "a < length ''0123456789''" "b < length ''0123456789''" using a b by simp_all
  with d e show ?thesis unfolding digitChar_def by (simp only: nth_eq_iff_index_eq)
qed

lemma numberToString_small: "n < 10 \<Longrightarrow> numberToString n = [digitChar n]"
  by (subst numberToString.simps) simp

lemma numberToString_big:
  "\<not> n < 10 \<Longrightarrow> numberToString n = numberToString (n div 10) @ [digitChar (n mod 10)]"
  by (subst numberToString.simps) simp

lemma numberToString_nonempty: "numberToString n \<noteq> []"
  by (cases "n < 10") (simp_all add: numberToString_small numberToString_big)

lemma numberToString_digits: "set (numberToString n) \<subseteq> set ''0123456789''"
proof (induction n rule: numberToString.induct)
  case (1 n)
  show ?case
  proof (cases "n < 10")
    case True
    then show ?thesis using digitChar_in [of n] by (simp add: numberToString_small)
  next
    case False
    have "n mod 10 < 10" by simp
    then have "digitChar (n mod 10) \<in> set ''0123456789''" by (rule digitChar_in)
    then show ?thesis using 1 [OF False] False by (simp add: numberToString_big)
  qed
qed

lemma numberToString_inj: "numberToString m = numberToString n \<Longrightarrow> m = n"
proof (induction m arbitrary: n rule: numberToString.induct)
  case (1 m)
  show ?case
  proof (cases "m < 10")
    case m: True
    show ?thesis
    proof (cases "n < 10")
      case True
      with m 1(2) show ?thesis by (simp add: numberToString_small digitChar_inj)
    next
      case False
      with m 1(2) show ?thesis
        using numberToString_nonempty [of "n div 10"]
        by (simp add: numberToString_small numberToString_big)
    qed
  next
    case m: False
    show ?thesis
    proof (cases "n < 10")
      case True
      with m 1(2) show ?thesis
        using numberToString_nonempty [of "m div 10"]
        by (simp add: numberToString_small numberToString_big)
    next
      case False
      with m 1(2) have e: "numberToString (m div 10) = numberToString (n div 10)"
        and d: "digitChar (m mod 10) = digitChar (n mod 10)"
        by (simp_all add: numberToString_big)
      from e have "m div 10 = n div 10" by (rule 1(1) [OF m])
      moreover from d have "m mod 10 = n mod 10" by (intro digitChar_inj) simp_all
      ultimately show ?thesis by (metis div_mult_mod_eq)
    qed
  qed
qed

lemma split_at_first:
  "c \<notin> set xs \<Longrightarrow> c \<notin> set ys \<Longrightarrow> xs @ c # r = ys @ c # s \<Longrightarrow> xs = ys \<and> r = s"
proof (induction xs arbitrary: ys)
  case Nil
  then show ?case by (cases ys) auto
next
  case (Cons x xs)
  then show ?case by (cases ys) auto
qed

lemma split_at_last:
  assumes "c \<notin> set r" "c \<notin> set s" "xs @ c # r = ys @ c # s"
  shows "xs = ys \<and> r = s"
proof -
  from assms(3) have "rev (xs @ c # r) = rev (ys @ c # s)" by simp
  then have "rev r @ c # rev xs = rev s @ c # rev ys" by simp
  with assms(1,2) have "rev r = rev s \<and> rev xs = rev ys"
    by (intro split_at_first) simp_all
  then show ?thesis by simp
qed

lemma no_dash: "CHR ''-'' \<notin> set (numberToString n)"
  using numberToString_digits [of n] by auto

lemma no_underscore: "CHR ''_'' \<notin> set (numberToString n)"
  using numberToString_digits [of n] by auto

lemma no_i: "CHR ''i'' \<notin> set (numberToString n)"
  using numberToString_digits [of n] by auto

lemma importedNote_id_inj:
  "id_n (importedNote clock d i) = id_n (importedNote clock d j) \<Longrightarrow> i = j"
proof -
  assume "id_n (importedNote clock d i) = id_n (importedNote clock d j)"
  then have "(''imported_'' @ numberToString (clock i)) @ CHR ''_'' # numberToString i
      = (''imported_'' @ numberToString (clock j)) @ CHR ''_'' # numberToString j"
    by (simp add: importedNote_def)
  then have "numberToString i = numberToString j"
    using split_at_last [OF no_underscore no_underscore] by blast
  then show ?thesis by (rule numberToString_inj)
qed

lemma scanNotes_ids_distinct: "distinct (map id_n (scanNotes clock d))"
proof -
  have "distinct (acceptedOffsets d)" by (simp add: acceptedOffsets_def)
  moreover have "inj_on (\<lambda>i. id_n (importedNote clock d i)) (set (acceptedOffsets d))"
    by (rule inj_onI) (rule importedNote_id_inj)
  ultimately show ?thesis by (simp add: scanNotes_char distinct_map comp_def)
qed

lemma scanNotes_ids_imported: "n \<in> set (scanNotes clock d) \<Longrightarrow> CHR ''i'' \<in> set (id_n n)"
  by (auto simp add: scanNotes_char importedNote_def)

lemma addNote_id_eq:
  "(''note-'' @ numberToString a @ ''-'' @ r = ''note-'' @ numberToString b @ ''-'' @ s)
    \<longleftrightarrow> (a = b \<and> r = s)"
proof
  assume "''note-'' @ numberToString a @ ''-'' @ r = ''note-'' @ numberToString b @ ''-'' @ s"
  then have "numberToString a @ CHR ''-'' # r = numberToString b @ CHR ''-'' # s" by simp
  then have "numberToString a = numberToString b \<and> r = s"
    using split_at_first [OF no_dash no_dash] by blast
  then show "a = b \<and> r = s" using numberToString_inj by blast
next
  assume "a = b \<and> r = s"
  then show "''note-'' @ numberToString a @ ''-'' @ r = ''note-'' @ numberToString b @ ''-'' @ s"
    by simp
qed


lemma mouseDown_notes:
  "notes (handleCanvasMouseDown x y now st) = notes st \<or>
   (\<exists>n. notes (handleCanvasMouseDown x y now st) = notes st @ [n] \<and> id_n n = numberToString now)"
  by (simp add: handleCanvasMouseDown_def Let_def split: option.split)

lemma mouseMove_ids: "map id_n (notes (handleCanvasMouseMove x y st)) = map id_n (notes st)"
  by (simp add: handleCanvasMouseMove_def Let_def comp_def split: option.split)

lemma mouseDown_prefix:
  "take (length (notes st)) (notes (handleCanvasMouseDown x y now st)) = notes st"
  using mouseDown_notes [of x y now st] by auto

lemma idInvariant_mono: "idInvariant T st \<Longrightarrow> T \<subseteq> T' \<Longrightarrow> idInvariant T' st"
  by (auto simp add: idInvariant_def list_all_iff)

lemma idInvariant_notes_cong:
  "idInvariant T st \<Longrightarrow> map id_n (notes st') = map id_n (notes st) \<Longrightarrow> idInvariant T st'"
proof -
  assume a: "idInvariant T st" and e: "map id_n (notes st') = map id_n (notes st)"
  have "set (map id_n (notes st')) = set (map id_n (notes st))" using e by simp
  then have s: "id_n ` set (notes st') = id_n ` set (notes st)" by simp
  have "\<forall>i \<in> id_n ` set (notes st). CHR ''i'' \<in> set i \<or> i \<in> numberToString ` T"
    using a by (auto simp add: idInvariant_def list_all_iff)
  then have "\<forall>i \<in> id_n ` set (notes st'). CHR ''i'' \<in> set i \<or> i \<in> numberToString ` T"
    using s by simp
  then show ?thesis using a e by (auto simp add: idInvariant_def list_all_iff)
qed

lemma idInvariant_filter:
  "idInvariant T st \<Longrightarrow> notes st' = filter P (notes st) \<Longrightarrow> idInvariant T st'"
  by (auto simp add: idInvariant_def list_all_iff distinct_map_filter)

lemma idInvariant_mouseDown:
  assumes "idInvariant T st" and "now \<notin> T"
  shows "idInvariant (insert now T) (handleCanvasMouseDown x y now st)"
proof -
  let ?st' = "handleCanvasMouseDown x y now st"
  from mouseDown_notes [of x y now st] show ?thesis
  proof
    assume "notes ?st' = notes st"
    then have "idInvariant T ?st'" using assms(1) by (simp add: idInvariant_def)
    then show ?thesis by (rule idInvariant_mono) auto
  next
    assume "\<exists>n. notes ?st' = notes st @ [n] \<and> id_n n = numberToString now"
    then obtain n where n: "notes ?st' = notes st @ [n]" "id_n n = numberToString now" by blast
    have fresh: "numberToString now \<notin> id_n ` set (notes st)"
    proof
      assume "numberToString now \<in> id_n ` set (notes st)"
      then obtain k where k: "k \<in> set (notes st)" "id_n k = numberToString now" by auto
      from assms(1) have "\<forall>n \<in> set (notes st).
          CHR ''i'' \<in> set (id_n n) \<or> id_n n \<in> numberToString ` T"
        by (simp add: idInvariant_def list_all_iff)
      with k(1) have "CHR ''i'' \<in> set (id_n k) \<or> id_n k \<in> numberToString ` T" by blast
      then show False
      proof
        assume "CHR ''i'' \<in> set (id_n k)"
        then show False using k(2) no_i by simp
      next
        assume "id_n k \<in> numberToString ` T"
        then obtain t where "t \<in> T" "numberToString t = numberToString now" using k(2) by auto
        then show False using assms(2) numberToString_inj by blast
      qed
    qed
    show ?thesis using assms(1) n fresh by (auto simp add: idInvariant_def list_all_iff)
  qed
qed

lemma clickTimes_Cons: "clickTimes (e # evs) = clickTimes [e] @ clickTimes evs"
  by (cases e) simp_all

lemma handle_idInvariant:
  assumes "idInvariant T st" and "set (clickTimes [e]) \<inter> T = {}"
  shows "idInvariant (T \<union> set (clickTimes [e])) (handle st e)"
proof (cases e)
  case (MouseDown x y now)
  then have "now \<notin> T" using assms(2) by simp
  then show ?thesis using idInvariant_mouseDown [OF assms(1)] MouseDown by simp
next
  case (MouseMove x y)
  then show ?thesis using idInvariant_notes_cong [OF assms(1) mouseMove_ids] by simp
next
  case MouseUp
  then show ?thesis using assms(1) by (simp add: idInvariant_def handleCanvasMouseUp_def)
next
  case (Wheel deltaY)
  then show ?thesis using assms(1) by (simp add: idInvariant_def handleCanvasWheel_def)
next
  case (RightClick x y)
  have "handleCanvasRightClick x y st = st \<or>
      (\<exists>P. notes (handleCanvasRightClick x y st) = filter P (notes st))"
    by (auto simp add: handleCanvasRightClick_def split: option.split)
  then show ?thesis using assms(1) RightClick idInvariant_filter by auto
next
  case DeleteKey
  have "handleDeleteKey st = st \<or> (\<exists>P. notes (handleDeleteKey st) = filter P (notes st))"
    by (auto simp add: handleDeleteKey_def split: option.split)
  then show ?thesis using assms(1) DeleteKey idInvariant_filter by auto
next
  case EscapeKey
  then show ?thesis using assms(1) by (simp add: idInvariant_def handleEscapeKey_def)
next
  case Clear
  then show ?thesis by (simp add: idInvariant_def clearNotes_def)
next
  case (SetZoom z)
  then show ?thesis using assms(1) by (simp add: idInvariant_def setZoom_def)
next
  case (Import f clock)
  show ?thesis
  proof (cases f)
    case NoFile
    then show ?thesis using assms(1) Import by (simp add: handleFileImport_def)
  next
    case Unreadable
    then show ?thesis using assms(1) Import by (simp add: handleFileImport_def)
  next
    case (FileBytes d)
    have "idInvariant T (st\<lparr>notes := scanNotes clock d\<rparr>)"
      using scanNotes_ids_distinct [of clock d] scanNotes_ids_imported [of _ clock d]
      by (simp add: idInvariant_def list_all_iff)
    then show ?thesis using assms(1) Import FileBytes
      by (simp add: handleFileImport_def Let_def)
  qed
qed

lemma foldl_idInvariant:
  "idInvariant T st \<Longrightarrow> distinct (clickTimes evs) \<Longrightarrow> set (clickTimes evs) \<inter> T = {}
    \<Longrightarrow> idInvariant (T \<union> set (clickTimes evs)) (foldl handle st evs)"
proof (induction evs arbitrary: st T)
  case Nil
  then show ?case by simp
next
  case (Cons e evs)
  have c: "clickTimes (e # evs) = clickTimes [e] @ clickTimes evs" by (rule clickTimes_Cons)
  have 1: "idInvariant (T \<union> set (clickTimes [e])) (handle st e)"
    using Cons.prems(1,3) c by (intro handle_idInvariant) auto
  have 2: "distinct (clickTimes evs)" using Cons.prems(2) c by simp
  have 3: "set (clickTimes evs) \<inter> (T \<union> set (clickTimes [e])) = {}"
    using Cons.prems(2,3) c by auto
  have "idInvariant ((T \<union> set (clickTimes [e])) \<union> set (clickTimes evs))
      (foldl handle (handle st e) evs)"
    using Cons.IH [OF 1 2 3] .
  then show ?case by (simp add: c Un_assoc)
qed

lemma session_ids_distinct:
  "distinct (clickTimes evs) \<Longrightarrow> distinct (map id_n (notes (session evs)))"
proof -
  assume d: "distinct (clickTimes evs)"
  have "idInvariant {} initialEditor" by (simp add: idInvariant_def initialEditor_def)
  from foldl_idInvariant [OF this d] show ?thesis by (simp add: session_def idInvariant_def)
qed

text \<open>
  Claim C6, as stated (every added note gets an id that no note in the store has), fails
  on the code: the id of a note added by a grid click is the clock reading alone. Two
  clicks on two empty cells during the same millisecond of the clock (or after the clock
  was set back to a reading it has shown before) add two notes with the same id.
\<close>

theorem C6_counterexample:
  "map id_n (notes (session [MouseDown 155 5 1000, MouseDown 265 5 1000]))
     = [''1000'', ''1000''] \<and>
   \<not> distinct (map id_n (notes (session [MouseDown 155 5 1000, MouseDown 265 5 1000])))"
  by (simp add: session_def initialEditor_def editor_defs canvas_defs numberToString.simps
      digitChar_def)

text \<open>
  Claim C6, amended. In every session of the canvas editor in which the clock readings of
  the mouse-down events are pairwise different, the ids of the notes in the store are
  pairwise different. A grid click leaves the notes of the store as they are and adds at
  most one note, whose id is the decimal numeral of the clock reading; a drag changes no
  id. In the step-grid editor \<open>addNote\<close> appends one note with the id
  \<open>note-<clock reading>-<random number>\<close>, and two such ids are equal exactly when both
  the clock readings and the random numbers are.
\<close>

theorem C6_ids_fresh_for_distinct_clock:
  assumes "distinct (clickTimes evs)"
  shows "distinct (map id_n (notes (session evs))) \<and>
    (notes (handleCanvasMouseDown x y now st) = notes st \<or>
     (\<exists>n. notes (handleCanvasMouseDown x y now st) = notes st @ [n] \<and>
        id_n n = numberToString now)) \<and>
    map id_n (notes (handleCanvasMouseMove x y st)) = map id_n (notes st) \<and>
    (\<exists>n. notes_g (addNote p s dur now rnd prev) = notes_g prev @ [n] \<and>
       id_g n = ''note-'' @ numberToString now @ ''-'' @ rnd) \<and>
    ((''note-'' @ numberToString a @ ''-'' @ r = ''note-'' @ numberToString b @ ''-'' @ r')
       \<longleftrightarrow> (a = b \<and> r = r'))"
proof (intro conjI)
  show "distinct (map id_n (notes (session evs)))" using assms by (rule session_ids_distinct)
  show "notes (handleCanvasMouseDown x y now st) = notes st \<or>
     (\<exists>n. notes (handleCanvasMouseDown x y now st) = notes st @ [n] \<and>
        id_n n = numberToString now)"
    by (rule mouseDown_notes)
  show "map id_n (notes (handleCanvasMouseMove x y st)) = map id_n (notes st)"
    by (rule mouseMove_ids)
  show "\<exists>n. notes_g (addNote p s dur now rnd prev) = notes_g prev @ [n] \<and>
       id_g n = ''note-'' @ numberToString now @ ''-'' @ rnd"
    by (simp add: addNote_def)
  show "(''note-'' @ numberToString a @ ''-'' @ r = ''note-'' @ numberToString b @ ''-'' @ r')
       \<longleftrightarrow> (a = b \<and> r = r')"
    by (rule addNote_id_eq)
qed

theorem C6_witness:
  "distinct (clickTimes [MouseDown 155 5 1000, MouseDown 265 5 1001]) \<and>
   map id_n (notes (session [MouseDown 155 5 1000, MouseDown 265 5 1001]))
     = [''1000'', ''1001''] \<and>
   distinct (map id_n (notes (session [MouseDown 155 5 1000, MouseDown 265 5 1001])))"
proof -
  have c: "distinct (clickTimes [MouseDown 155 5 1000, MouseDown 265 5 1001])" by simp
  have i: "map id_n (notes (session [MouseDown 155 5 1000, MouseDown 265 5 1001]))
     = [''1000'', ''1001'']"
    by (simp add: session_def initialEditor_def editor_defs canvas_defs numberToString.simps
        digitChar_def)
  from C6_ids_fresh_for_distinct_clock [OF c] c i show ?thesis by blast
qed

end
